theory Spec2Isabelle
  imports Main "HOL-Library.Word" "HOL-Library.Monad_Syntax"
begin

unbundle bit_operations_syntax

section \<open>Conventions\<close>

text \<open>
  A Python \<^verbatim>\<open>str\<close> is modelled as a \<^typ>\<open>string\<close>, each \<^typ>\<open>char\<close> standing for the
  code point of the same number (0 to 255). \<^verbatim>\<open>None\<close> is \<^const>\<open>None\<close>. The calls to
  \<^verbatim>\<open>print\<close> are not modelled.
\<close>

section \<open>utils.py\<close>

subsection \<open>clean_text\<close>

text \<open>
  \<^verbatim>\<open>str.strip()\<close> and \<^verbatim>\<open>str.split()\<close> without arguments both use \<^verbatim>\<open>str.isspace\<close>:
  among the code points below 256 these are 9 to 13, 28 to 32, 133 and 160.
\<close>

definition isspace :: "char \<Rightarrow> bool" where
  "isspace c =
     (let n = (of_char c :: nat)
      in (9 \<le> n \<and> n \<le> 13) \<or> (28 \<le> n \<and> n \<le> 32) \<or> n = 133 \<or> n = 160)"

definition lstrip :: "string \<Rightarrow> string" where
  "lstrip s = dropWhile isspace s"

definition rstrip :: "string \<Rightarrow> string" where
  "rstrip s = rev (dropWhile isspace (rev s))"

definition strip :: "string \<Rightarrow> string" where
  "strip s = rstrip (lstrip s)"

text \<open>
  \<^verbatim>\<open>s.split()\<close>: skip a run of whitespace, take the run of other characters as the
  next word, repeat; no word is empty.
\<close>

function split_ws :: "string \<Rightarrow> string list" where
  "split_ws s =
     (let r = dropWhile isspace s in
      if r = [] then []
      else takeWhile (\<lambda>c. \<not> isspace c) r # split_ws (dropWhile (\<lambda>c. \<not> isspace c) r))"
  by pat_completeness auto
termination
proof (relation "measure length")
  show "wf (measure length)" by simp
next
  fix s r :: string
  assume r: "r = dropWhile isspace s" and ne: "r \<noteq> []"
  obtain c cs where cs: "dropWhile isspace s = c # cs"
    using r ne by (cases "dropWhile isspace s") auto
  have "\<not> isspace (hd (c # cs))"
    using hd_dropWhile [of isspace s] cs by simp
  then have "length (dropWhile (\<lambda>c. \<not> isspace c) (c # cs)) \<le> length cs"
    by (simp add: length_dropWhile_le)
  moreover have "length (c # cs) \<le> length s"
    using length_dropWhile_le [of isspace s] cs by simp
  ultimately show "(dropWhile (\<lambda>c. \<not> isspace c) r, s) \<in> measure length"
    using r cs by simp
qed

declare split_ws.simps [simp del]

text \<open>\<^verbatim>\<open>sep.join(words)\<close>.\<close>

fun join :: "string \<Rightarrow> string list \<Rightarrow> string" where
  "join sep [] = []"
| "join sep [w] = w"
| "join sep (w # v # ws) = w @ sep @ join sep (v # ws)"

definition clean_text :: "string \<Rightarrow> string" where
  "clean_text txt = (if txt = [] then [] else join '' '' (split_ws (strip txt)))"

subsection \<open>get_hash\<close>

text \<open>
  \<^verbatim>\<open>hashlib.md5(text.encode('utf-8')).hexdigest()\<close>. The UTF-8 encoding of a code point
  below 128 is one byte, of one from 128 to 255 two bytes. MD5 is the algorithm of
  RFC 1321 on 32-bit words: padding to a multiple of 64 bytes, 64 steps per block, the
  digest as 16 bytes in little-endian order, printed as 32 lower-case hex digits.
\<close>

definition utf8_encode :: "string \<Rightarrow> 8 word list" where
  "utf8_encode s =
     concat (map (\<lambda>c. let n = (of_char c :: nat)
                        in if n < 128 then [of_nat n]
                           else [of_nat (192 + n div 64), of_nat (128 + n mod 64)]) s)"

definition md5_K :: "32 word list" where
  "md5_K =
     [0xd76aa478, 0xe8c7b756, 0x242070db, 0xc1bdceee,
      0xf57c0faf, 0x4787c62a, 0xa8304613, 0xfd469501,
      0x698098d8, 0x8b44f7af, 0xffff5bb1, 0x895cd7be,
      0x6b901122, 0xfd987193, 0xa679438e, 0x49b40821,
      0xf61e2562, 0xc040b340, 0x265e5a51, 0xe9b6c7aa,
      0xd62f105d, 0x02441453, 0xd8a1e681, 0xe7d3fbc8,
      0x21e1cde6, 0xc33707d6, 0xf4d50d87, 0x455a14ed,
      0xa9e3e905, 0xfcefa3f8, 0x676f02d9, 0x8d2a4c8a,
      0xfffa3942, 0x8771f681, 0x6d9d6122, 0xfde5380c,
      0xa4beea44, 0x4bdecfa9, 0xf6bb4b60, 0xbebfbc70,
      0x289b7ec6, 0xeaa127fa, 0xd4ef3085, 0x04881d05,
      0xd9d4d039, 0xe6db99e5, 0x1fa27cf8, 0xc4ac5665,
      0xf4292244, 0x432aff97, 0xab9423a7, 0xfc93a039,
      0x655b59c3, 0x8f0ccc92, 0xffeff47d, 0x85845dd1,
      0x6fa87e4f, 0xfe2ce6e0, 0xa3014314, 0x4e0811a1,
      0xf7537e82, 0xbd3af235, 0x2ad7d2bb, 0xeb86d391]"

definition md5_S :: "nat list" where
  "md5_S =
     [7, 12, 17, 22, 7, 12, 17, 22, 7, 12, 17, 22, 7, 12, 17, 22,
      5, 9, 14, 20, 5, 9, 14, 20, 5, 9, 14, 20, 5, 9, 14, 20,
      4, 11, 16, 23, 4, 11, 16, 23, 4, 11, 16, 23, 4, 11, 16, 23,
      6, 10, 15, 21, 6, 10, 15, 21, 6, 10, 15, 21, 6, 10, 15, 21]"

definition rotl32 :: "32 word \<Rightarrow> nat \<Rightarrow> 32 word" where
  "rotl32 x n = push_bit n x OR drop_bit (32 - n) x"

definition le_bytes :: "nat \<Rightarrow> 'a::len word \<Rightarrow> 8 word list" where
  "le_bytes k w = map (\<lambda>i. ucast (drop_bit (8 * i) w)) [0..<k]"

definition md5_pad :: "8 word list \<Rightarrow> 8 word list" where
  "md5_pad m =
     m @ [0x80] @ replicate ((119 - length m mod 64) mod 64) 0
       @ le_bytes 8 (of_nat (8 * length m) :: 64 word)"

fun le_words :: "8 word list \<Rightarrow> 32 word list" where
  "le_words (b0 # b1 # b2 # b3 # bs) =
     (ucast b0 OR push_bit 8 (ucast b1) OR push_bit 16 (ucast b2) OR push_bit 24 (ucast b3))
       # le_words bs"
| "le_words _ = []"

type_synonym md5_state = "32 word \<times> 32 word \<times> 32 word \<times> 32 word"

definition md5_step :: "32 word list \<Rightarrow> nat \<Rightarrow> md5_state \<Rightarrow> md5_state" where
  "md5_step M i st =
     (case st of (a, b, c, d) \<Rightarrow>
        let (f, g) =
              (if i < 16 then ((b AND c) OR (NOT b AND d), i)
               else if i < 32 then ((d AND b) OR (NOT d AND c), (5 * i + 1) mod 16)
               else if i < 48 then (b XOR c XOR d, (3 * i + 5) mod 16)
               else (c XOR (b OR NOT d), (7 * i) mod 16));
            f' = f + a + md5_K ! i + M ! g
        in (d, b + rotl32 f' (md5_S ! i), b, c))"

definition md5_block :: "md5_state \<Rightarrow> 8 word list \<Rightarrow> md5_state" where
  "md5_block st blk =
     (case st of (a0, b0, c0, d0) \<Rightarrow>
        case fold (md5_step (le_words blk)) [0..<64] st of (a, b, c, d) \<Rightarrow>
          (a0 + a, b0 + b, c0 + c, d0 + d))"

fun md5_blocks :: "nat \<Rightarrow> md5_state \<Rightarrow> 8 word list \<Rightarrow> md5_state" where
  "md5_blocks 0 st bs = st"
| "md5_blocks (Suc n) st bs = md5_blocks n (md5_block st (take 64 bs)) (drop 64 bs)"

definition md5_digest :: "8 word list \<Rightarrow> 8 word list" where
  "md5_digest m =
     (let p = md5_pad m in
      case md5_blocks (length p div 64) (0x67452301, 0xefcdab89, 0x98badcfe, 0x10325476) p
      of (a, b, c, d) \<Rightarrow> concat (map (le_bytes 4) [a, b, c, d]))"

definition hex_digit :: "nat \<Rightarrow> char" where
  "hex_digit n = ''0123456789abcdef'' ! n"

definition hexdigest :: "8 word list \<Rightarrow> string" where
  "hexdigest bs =
     concat (map (\<lambda>b. [hex_digit (unat (drop_bit 4 b)), hex_digit (unat (b AND 0x0f))]) bs)"

definition get_hash :: "string \<Rightarrow> string" where
  "get_hash txt = hexdigest (md5_digest (utf8_encode txt))"

section \<open>The standard library as scraper.py uses it\<close>

subsection \<open>str\<close>

definition startswith :: "string \<Rightarrow> string \<Rightarrow> bool" where
  "startswith s p = (take (length p) s = p)"

text \<open>\<^verbatim>\<open>s.replace(c, new)\<close> for a one-character \<^verbatim>\<open>c\<close>: every occurrence is replaced.\<close>

definition replace_char :: "char \<Rightarrow> string \<Rightarrow> string \<Rightarrow> string" where
  "replace_char c new s = concat (map (\<lambda>x. if x = c then new else [x]) s)"

definition digit_char :: "nat \<Rightarrow> char" where
  "digit_char n = ''0123456789'' ! n"

text \<open>The decimal digits of an integer that is not negative.\<close>

function str_digits :: "int \<Rightarrow> string" where
  "str_digits n =
     (if n < 10 then [digit_char (nat n)]
      else str_digits (n div 10) @ [digit_char (nat (n mod 10))])"
  by pat_completeness auto
termination
  by (relation "measure nat") auto

declare str_digits.simps [simp del]

text \<open>\<^verbatim>\<open>str(n)\<close> of an integer, as an f-string prints it.\<close>

definition str_int :: "int \<Rightarrow> string" where
  "str_int n = (if n < 0 then CHR ''-'' # str_digits (- n) else str_digits n)"

definition zfill :: "nat \<Rightarrow> string \<Rightarrow> string" where
  "zfill k s = replicate (k - length s) CHR ''0'' @ s"

subsection \<open>datetime\<close>

text \<open>
  \<^verbatim>\<open>datetime.fromisoformat\<close> on the format its documentation gives,
  \<^verbatim>\<open>YYYY-MM-DD[*HH[:MM[:SS[.fff[fff]]]][+HH:MM[:SS[.ffffff]]]]\<close>, with the range checks of
  the \<^verbatim>\<open>datetime\<close> and \<^verbatim>\<open>timezone\<close> constructors. \<^const>\<open>None\<close> stands for the
  \<^verbatim>\<open>ValueError\<close> it raises on any other string. (Later Python versions accept further
  ISO 8601 spellings; the two strings evaluated below are read the same by all.)
\<close>

record datetime =
  dt_year :: int
  dt_month :: int
  dt_day :: int
  dt_hour :: int
  dt_minute :: int
  dt_second :: int
  dt_microsecond :: int
  dt_utcoffset :: "int option"

definition is_digit :: "char \<Rightarrow> bool" where
  "is_digit c = (c \<in> set ''0123456789'')"

definition digit_val :: "char \<Rightarrow> int" where
  "digit_val c = of_char c - 48"

definition parse_digits :: "string \<Rightarrow> int option" where
  "parse_digits s =
     (if s \<noteq> [] \<and> list_all is_digit s then Some (foldl (\<lambda>v c. 10 * v + digit_val c) 0 s)
      else None)"

definition parse_isoformat_date :: "string \<Rightarrow> (int \<times> int \<times> int) option" where
  "parse_isoformat_date d =
     (if length d = 10 \<and> d ! 4 = CHR ''-'' \<and> d ! 7 = CHR ''-'' then
        do {
          y \<leftarrow> parse_digits (take 4 d);
          m \<leftarrow> parse_digits (take 2 (drop 5 d));
          dd \<leftarrow> parse_digits (drop 8 d);
          Some (y, m, dd)
        }
      else None)"

definition parse_hh_mm_ss_ff :: "string \<Rightarrow> (int \<times> int \<times> int \<times> int) option" where
  "parse_hh_mm_ss_ff t =
     (if length t = 2 then
        do { h \<leftarrow> parse_digits t; Some (h, 0, 0, 0) }
      else if length t = 5 \<and> t ! 2 = CHR '':'' then
        do { h \<leftarrow> parse_digits (take 2 t); m \<leftarrow> parse_digits (drop 3 t); Some (h, m, 0, 0) }
      else if length t = 8 \<and> t ! 2 = CHR '':'' \<and> t ! 5 = CHR '':'' then
        do {
          h \<leftarrow> parse_digits (take 2 t);
          m \<leftarrow> parse_digits (take 2 (drop 3 t));
          s \<leftarrow> parse_digits (drop 6 t);
          Some (h, m, s, 0)
        }
      else if (length t = 12 \<or> length t = 15) \<and> t ! 2 = CHR '':'' \<and> t ! 5 = CHR '':''
              \<and> t ! 8 = CHR ''.'' then
        do {
          h \<leftarrow> parse_digits (take 2 t);
          m \<leftarrow> parse_digits (take 2 (drop 3 t));
          s \<leftarrow> parse_digits (take 2 (drop 6 t));
          f \<leftarrow> parse_digits (drop 9 t);
          Some (h, m, s, if length t = 12 then f * 1000 else f)
        }
      else None)"

definition is_sign :: "char \<Rightarrow> bool" where
  "is_sign c = (c = CHR ''+'' \<or> c = CHR ''-'')"

definition parse_isoformat_time ::
  "string \<Rightarrow> ((int \<times> int \<times> int \<times> int) \<times> int option) option" where
  "parse_isoformat_time t =
     do {
       tc \<leftarrow> parse_hh_mm_ss_ff (takeWhile (\<lambda>c. \<not> is_sign c) t);
       case dropWhile (\<lambda>c. \<not> is_sign c) t of
         [] \<Rightarrow> Some (tc, None)
       | sg # tzstr \<Rightarrow>
           if length tzstr = 5 \<or> length tzstr = 8 \<or> length tzstr = 15 then
             do {
               (h, m, s, f) \<leftarrow> parse_hh_mm_ss_ff tzstr;
               let off = (h * 3600 + m * 60 + s) * 1000000 + f
               in Some (tc, Some (if sg = CHR ''-'' then - off else off))
             }
           else None
     }"

definition is_leap :: "int \<Rightarrow> bool" where
  "is_leap y = (y mod 4 = 0 \<and> (y mod 100 \<noteq> 0 \<or> y mod 400 = 0))"

definition days_in_month :: "int \<Rightarrow> int \<Rightarrow> int" where
  "days_in_month y m =
     (if m = 2 then (if is_leap y then 29 else 28)
      else if m = 4 \<or> m = 6 \<or> m = 9 \<or> m = 11 then 30 else 31)"

definition fromisoformat :: "string \<Rightarrow> datetime option" where
  "fromisoformat s =
     do {
       (y, m, d) \<leftarrow> parse_isoformat_date (take 10 s);
       ((h, mi, sec, us), tz) \<leftarrow>
         (if length s \<le> 10 then Some ((0, 0, 0, 0), None) else parse_isoformat_time (drop 11 s));
       if 1 \<le> y \<and> y \<le> 9999 \<and> 1 \<le> m \<and> m \<le> 12 \<and> 1 \<le> d \<and> d \<le> days_in_month y m
          \<and> 0 \<le> h \<and> h < 24 \<and> 0 \<le> mi \<and> mi < 60 \<and> 0 \<le> sec \<and> sec < 60
          \<and> 0 \<le> us \<and> us < 1000000
          \<and> (case tz of None \<Rightarrow> True | Some off \<Rightarrow> \<bar>off\<bar> < 86400 * 1000000)
       then Some \<lparr>dt_year = y, dt_month = m, dt_day = d, dt_hour = h, dt_minute = mi,
                  dt_second = sec, dt_microsecond = us, dt_utcoffset = tz\<rparr>
       else None
     }"

text \<open>\<^verbatim>\<open>dt.strftime("%Y-%m-%d %H:%M")\<close>, every field zero-padded to its width.\<close>

definition strftime_minutes :: "datetime \<Rightarrow> string" where
  "strftime_minutes dt =
     zfill 4 (str_int (dt_year dt)) @ ''-'' @ zfill 2 (str_int (dt_month dt)) @ ''-''
       @ zfill 2 (str_int (dt_day dt)) @ '' '' @ zfill 2 (str_int (dt_hour dt)) @ '':''
       @ zfill 2 (str_int (dt_minute dt))"

section \<open>scraper.py\<close>

definition BASE_URL :: string where
  "BASE_URL = ''https://techcrunch.com''"

subsection \<open>Article\<close>

text \<open>
  The dataclass \<^verbatim>\<open>Article\<close>. Its \<^verbatim>\<open>__post_init__\<close> sets \<^verbatim>\<open>scraped_at\<close> to the formatted
  wall-clock time; the constructor below takes that reading as an argument.
\<close>

record article =
  source :: string
  title :: string
  url :: string
  author :: string
  publish_time :: string
  hash :: string
  category :: "string option"
  excerpt :: "string option"
  scraped_at :: string

subsection \<open>The parsed page\<close>

text \<open>
  Of a BeautifulSoup element the code reads its \<^verbatim>\<open>text\<close> and its attribute dictionary
  (\<^verbatim>\<open>get\<close>, \<^verbatim>\<open>has_attr\<close>). Of a card it takes three \<^verbatim>\<open>find\<close> results, each an element
  or \<^verbatim>\<open>None\<close>: the \<^verbatim>\<open>a.loop-card__title-link\<close>, the \<^verbatim>\<open>a.loop-card__author\<close> and the
  \<^verbatim>\<open>time\<close> element. Of a document it takes \<^verbatim>\<open>find_all('div', class_='loop-card__content')\<close>,
  the cards in document order. An element and a document are always truthy.
\<close>

datatype tag = Tag (tag_text: string) (attrs: "string \<rightharpoonup> string")

definition tag_get :: "tag \<Rightarrow> string \<Rightarrow> string \<Rightarrow> string" where
  "tag_get t k dflt = (case attrs t k of None \<Rightarrow> dflt | Some v \<Rightarrow> v)"

definition has_attr :: "tag \<Rightarrow> string \<Rightarrow> bool" where
  "has_attr t k = (attrs t k \<noteq> None)"

record card =
  find_title_link :: "tag option"
  find_author :: "tag option"
  find_time :: "tag option"

datatype soup = Soup (find_all_cards: "card list")

subsection \<open>parse_article_from_card\<close>

definition parse_article_from_card :: "string \<Rightarrow> card \<Rightarrow> article option" where
  "parse_article_from_card now c =
     (case find_title_link c of
        None \<Rightarrow> None
      | Some title_tag \<Rightarrow>
          let ttl = clean_text (tag_text title_tag) in
          if ttl = [] then None
          else
            let href = tag_get title_tag ''href'' [];
                u = (if href \<noteq> [] \<and> \<not> startswith href ''http''
                     then (if startswith href ''/'' then BASE_URL @ href
                           else BASE_URL @ ''/'' @ href)
                     else href);
                auth = (case find_author c of
                          Some author_tag \<Rightarrow> clean_text (tag_text author_tag)
                        | None \<Rightarrow> ''Unknown'');
                raw_time = (case find_time c of
                              Some time_tag \<Rightarrow>
                                if has_attr time_tag ''datetime''
                                then tag_get time_tag ''datetime'' [] else []
                            | None \<Rightarrow> []);
                ptime = (if raw_time \<noteq> [] then
                           (case fromisoformat (replace_char CHR ''Z'' ''+00:00'' raw_time) of
                              Some dt_obj \<Rightarrow> strftime_minutes dt_obj
                            | None \<Rightarrow> if raw_time \<noteq> [] then take 19 raw_time else ''Unknown'')
                         else ''Unknown'')
            in Some \<lparr>source = ''TechCrunch'', title = ttl, url = u, author = auth,
                      publish_time = ptime, hash = get_hash ttl, category = None,
                      excerpt = None, scraped_at = now\<rparr>)"

subsection \<open>The network, the clock and the scraper's state\<close>

text \<open>
  What \<^verbatim>\<open>session.get(url)\<close> does is the environment's choice: it raises (the message is
  \<^verbatim>\<open>str(e)\<close>), or it answers with a status; on status 200 the code reads and parses the
  body, which yields a document or raises. No page is requested twice in one run, so
  the network is a function of the URL. The clock gives the \<^verbatim>\<open>scraped_at\<close> reading of the
  card at a given position of a given page.
\<close>

datatype body = Document soup | BodyRaises string

datatype response = Response int body | GetRaises string

record world =
  web :: "string \<Rightarrow> response"
  clock :: "int \<Rightarrow> nat \<Rightarrow> string"

text \<open>
  The fields of \<^verbatim>\<open>TechCrunchScraper\<close> that the page loop reads or writes, and a trace of
  its effects on the outside: every \<^verbatim>\<open>session.get\<close> and every \<^verbatim>\<open>asyncio.sleep\<close>, in order.
\<close>

datatype event = Get string | Sleep

record scraper =
  max_pages :: int
  errors :: "string list"
  trace :: "event list"

subsection \<open>random_delay, fetch_page\<close>

definition random_delay :: "scraper \<Rightarrow> scraper" where
  "random_delay st = st\<lparr>trace := trace st @ [Sleep]\<rparr>"

definition fetch_page :: "world \<Rightarrow> string \<Rightarrow> scraper \<Rightarrow> soup option \<times> scraper" where
  "fetch_page w u st =
     (let st1 = st\<lparr>trace := trace st @ [Get u]\<rparr> in
      case web w u of
        Response status b \<Rightarrow>
          if status = 200 then
            (case b of
               Document html \<Rightarrow> (Some html, st1)
             | BodyRaises msg \<Rightarrow>
                 (None, st1\<lparr>errors := errors st1
                    @ [''Exception while fetching '' @ u @ '': '' @ msg]\<rparr>))
          else
            (None, st1\<lparr>errors := errors st1
               @ [''Failed to fetch '' @ u @ '': HTTP '' @ str_int status]\<rparr>)
      | GetRaises msg \<Rightarrow>
          (None, st1\<lparr>errors := errors st1
             @ [''Exception while fetching '' @ u @ '': '' @ msg]\<rparr>))"

subsection \<open>scrape_page\<close>

definition page_url :: "int \<Rightarrow> string" where
  "page_url page_num =
     (if page_num = 1 then BASE_URL else BASE_URL @ ''/page/'' @ str_int page_num @ ''/'')"

text \<open>The loop over the cards: \<open>i\<close> is the position of the next card on the page.\<close>

fun parse_cards :: "(nat \<Rightarrow> string) \<Rightarrow> nat \<Rightarrow> card list \<Rightarrow> article list \<Rightarrow> article list" where
  "parse_cards clk i [] articles = articles"
| "parse_cards clk i (c # cards) articles =
     (case parse_article_from_card (clk i) c of
        None \<Rightarrow> parse_cards clk (Suc i) cards articles
      | Some a \<Rightarrow> parse_cards clk (Suc i) cards (articles @ [a]))"

definition scrape_page :: "world \<Rightarrow> int \<Rightarrow> scraper \<Rightarrow> article list \<times> scraper" where
  "scrape_page w page_num st =
     (case fetch_page w (page_url page_num) st of
        (None, st1) \<Rightarrow> ([], st1)
      | (Some html, st1) \<Rightarrow> (parse_cards (clock w page_num) 0 (find_all_cards html) [], st1))"

subsection \<open>scrape_all_pages\<close>

text \<open>
  \<^verbatim>\<open>for page_num in range(1, self.max_pages + 1)\<close>: the range is built once, \<open>n\<close> is its
  last page. The loop runs while \<open>page_num \<le> n\<close> and leaves at the \<^verbatim>\<open>break\<close>.
\<close>

function scrape_loop ::
  "world \<Rightarrow> int \<Rightarrow> int \<Rightarrow> article list \<Rightarrow> scraper \<Rightarrow> article list \<times> scraper" where
  "scrape_loop w n page_num all_articles st =
     (if page_num \<le> n then
        (case scrape_page w page_num st of
           (articles, st1) \<Rightarrow>
             if articles = [] then (all_articles @ articles, st1)
             else scrape_loop w n (page_num + 1) (all_articles @ articles)
                    (if page_num < max_pages st1 then random_delay st1 else st1))
      else (all_articles, st))"
  by pat_completeness auto
termination
  by (relation "measure (\<lambda>(w, n, page_num, all_articles, st). nat (n + 1 - page_num))") auto

declare scrape_loop.simps [simp del]

definition scrape_all_pages :: "world \<Rightarrow> scraper \<Rightarrow> article list \<times> scraper" where
  "scrape_all_pages w st = scrape_loop w (max_pages st) 1 [] st"

section \<open>Observing a run\<close>

text \<open>The URLs requested in a trace, in order.\<close>

fun fetched :: "event list \<Rightarrow> string list" where
  "fetched [] = []"
| "fetched (Get u # evs) = u # fetched evs"
| "fetched (Sleep # evs) = fetched evs"

text \<open>What a fetch returns, what a page holds and what a page yields, whatever the scraper's state.\<close>

definition fetch_result :: "world \<Rightarrow> string \<Rightarrow> soup option" where
  "fetch_result w u =
     (case web w u of
        Response status b \<Rightarrow>
          if status = 200 then (case b of Document html \<Rightarrow> Some html | BodyRaises msg \<Rightarrow> None)
          else None
      | GetRaises msg \<Rightarrow> None)"

definition page_cards :: "world \<Rightarrow> int \<Rightarrow> card list" where
  "page_cards w p =
     (case fetch_result w (page_url p) of None \<Rightarrow> [] | Some html \<Rightarrow> find_all_cards html)"

definition page_articles :: "world \<Rightarrow> int \<Rightarrow> article list" where
  "page_articles w p = parse_cards (clock w p) 0 (page_cards w p) []"

section \<open>Example inputs\<close>

definition card_full :: card where
  "card_full =
     \<lparr>find_title_link = Some (Tag ''  Hello   World '' [''href'' \<mapsto> ''/2024/01/01/foo'']),
      find_author = Some (Tag '' Jane  Doe '' Map.empty),
      find_time = Some (Tag [] [''datetime'' \<mapsto> ''2024-01-15T10:30:00Z''])\<rparr>"

definition card_no_href :: card where
  "card_no_href =
     \<lparr>find_title_link = Some (Tag ''Hello World'' Map.empty),
      find_author = None,
      find_time = None\<rparr>"

definition card_blank_author :: card where
  "card_blank_author =
     \<lparr>find_title_link = Some (Tag ''Hello'' [''href'' \<mapsto> ''https://example.com/a'']),
      find_author = Some (Tag ''  '' Map.empty),
      find_time = Some (Tag [] [''datetime'' \<mapsto> ''not-a-date-xxxxxxxxxx''])\<rparr>"

definition card_bare_href :: card where
  "card_bare_href =
     \<lparr>find_title_link = Some (Tag ''Hello'' [''href'' \<mapsto> ''2024/bar'']),
      find_author = None,
      find_time = Some (Tag [] Map.empty)\<rparr>"

definition card_ftp_href :: card where
  "card_ftp_href =
     \<lparr>find_title_link = Some (Tag ''Hello'' [''href'' \<mapsto> ''ftp://example.com/a'']),
      find_author = None,
      find_time = None\<rparr>"

definition card_http_word_href :: card where
  "card_http_word_href =
     \<lparr>find_title_link = Some (Tag ''Hello'' [''href'' \<mapsto> ''http-status-codes/intro'']),
      find_author = None,
      find_time = None\<rparr>"

definition world_two_pages :: world where
  "world_two_pages =
     \<lparr>web = (\<lambda>u. if u = ''https://techcrunch.com''
                  then Response 200 (Document (Soup [card_full, card_no_href, card_bare_href]))
                else if u = ''https://techcrunch.com/page/2/''
                  then Response 200 (Document (Soup []))
                else Response 404 (BodyRaises [])),
      clock = (\<lambda>p i. ''2024-01-01 00:00:00'')\<rparr>"

definition world_down :: world where
  "world_down =
     \<lparr>web = (\<lambda>u. GetRaises ''Connection refused''),
      clock = (\<lambda>p i. ''2024-01-01 00:00:00'')\<rparr>"

definition scraper_five :: scraper where
  "scraper_five = \<lparr>max_pages = 5, errors = [], trace = []\<rparr>"

section \<open>Properties of clean_text\<close>

text \<open>A list of words as \<^const>\<open>split_ws\<close> returns it: no word is empty or holds whitespace.\<close>

definition word_list :: "string list \<Rightarrow> bool" where
  "word_list ws = (\<forall>w\<in>set ws. w \<noteq> [] \<and> (\<forall>c\<in>set w. \<not> isspace c))"

text \<open>Two neighbouring whitespace characters somewhere in a string.\<close>

fun has_double :: "string \<Rightarrow> bool" where
  "has_double (a # b # r) = ((isspace a \<and> isspace b) \<or> has_double (b # r))"
| "has_double _ = False"

lemma split_ws_all_space: "dropWhile isspace s = [] \<Longrightarrow> split_ws s = []"
  by (subst split_ws.simps) (simp add: Let_def)

lemma split_ws_next:
  "dropWhile isspace s \<noteq> [] \<Longrightarrow>
   split_ws s = takeWhile (\<lambda>c. \<not> isspace c) (dropWhile isspace s)
                  # split_ws (dropWhile (\<lambda>c. \<not> isspace c) (dropWhile isspace s))"
  by (subst split_ws.simps) (simp only: Let_def if_False)


lemma takeWhile_nonspace: "c \<in> set (takeWhile (\<lambda>c. \<not> isspace c) r) \<Longrightarrow> \<not> isspace c"
  by (drule set_takeWhileD) simp

lemma takeWhile_nonspace_ne:
  assumes "dropWhile isspace s \<noteq> []"
  shows "takeWhile (\<lambda>c. \<not> isspace c) (dropWhile isspace s) \<noteq> []"
proof
  assume "takeWhile (\<lambda>c. \<not> isspace c) (dropWhile isspace s) = []"
  then have "dropWhile isspace s = [] \<or> \<not> \<not> isspace (hd (dropWhile isspace s))"
    by (simp only: takeWhile_eq_Nil_iff)
  with assms hd_dropWhile [OF assms] show False by blast
qed

lemma split_ws_word_list: "word_list (split_ws s)"
proof (induction s rule: split_ws.induct)
  case (1 s)
  let ?r = "dropWhile isspace s"
  show ?case
  proof (cases "?r = []")
    case True
    then have "split_ws s = []" by (rule split_ws_all_space)
    then show ?thesis by (simp add: word_list_def)
  next
    case False
    have c: "word_list (split_ws (dropWhile (\<lambda>c. \<not> isspace c) ?r))"
      by (rule 1, rule refl, rule False)
    have "word_list (takeWhile (\<lambda>c. \<not> isspace c) ?r
            # split_ws (dropWhile (\<lambda>c. \<not> isspace c) ?r))"
      unfolding word_list_def
    proof
      fix w assume w: "w \<in> set (takeWhile (\<lambda>c. \<not> isspace c) ?r
            # split_ws (dropWhile (\<lambda>c. \<not> isspace c) ?r))"
      then consider "w = takeWhile (\<lambda>c. \<not> isspace c) ?r"
        | "w \<in> set (split_ws (dropWhile (\<lambda>c. \<not> isspace c) ?r))"
        by (simp only: set_simps insert_iff) blast
      then show "w \<noteq> [] \<and> (\<forall>c\<in>set w. \<not> isspace c)"
      proof cases
        case 1
        have "w \<noteq> []"
          unfolding 1 by (rule takeWhile_nonspace_ne [OF False])
        moreover have "\<forall>c\<in>set w. \<not> isspace c"
          unfolding 1 by (intro ballI) (erule takeWhile_nonspace)
        ultimately show ?thesis by (rule conjI)
      next
        case 2 then show ?thesis using c unfolding word_list_def by blast
      qed
    qed
    then show ?thesis
      by (simp only: split_ws_next [OF False])
  qed
qed

lemma dropWhile_word:
  "w \<noteq> [] \<Longrightarrow> \<forall>c\<in>set w. \<not> isspace c \<Longrightarrow> dropWhile isspace (w @ rest) = w @ rest"
  by (cases w) simp_all

lemma split_ws_word: 
  assumes "w \<noteq> []" "\<forall>c\<in>set w. \<not> isspace c" "rest = [] \<or> isspace (hd rest)"
  shows "split_ws (w @ rest) = w # split_ws rest"
proof -
  have d: "dropWhile isspace (w @ rest) = w @ rest"
    using assms(1,2) by (rule dropWhile_word)
  have ne: "dropWhile isspace (w @ rest) \<noteq> []"
    using d assms(1) by simp
  have t: "takeWhile (\<lambda>c. \<not> isspace c) (w @ rest) = w"
    using assms(2,3) by (cases rest) simp_all
  have r: "dropWhile (\<lambda>c. \<not> isspace c) (w @ rest) = rest"
    using assms(2,3) by (cases rest) simp_all
  show ?thesis
    by (simp only: split_ws_next [OF ne] d t r)
qed


lemma isspace_space: "isspace CHR '' ''"
  by (simp add: isspace_def)

lemma split_ws_space: 
  assumes "isspace c"
  shows "split_ws (c # s) = split_ws s"
proof -
  have d: "dropWhile isspace (c # s) = dropWhile isspace s"
    using assms by simp
  show ?thesis
  proof (cases "dropWhile isspace s = []")
    case True
    then show ?thesis
      using d by (simp only: split_ws_all_space)
  next
    case False
    have ne: "dropWhile isspace (c # s) \<noteq> []"
      unfolding d by (rule False)
    show ?thesis
      by (simp only: split_ws_next [OF ne] split_ws_next [OF False] d)
  qed
qed

lemma word_list_Cons: "word_list (w # ws) = (w \<noteq> [] \<and> (\<forall>c\<in>set w. \<not> isspace c) \<and> word_list ws)"
  by (simp add: word_list_def)

lemma join_bounds:
  "word_list ws \<Longrightarrow> ws \<noteq> [] \<Longrightarrow>
   join '' '' ws \<noteq> [] \<and> \<not> isspace (hd (join '' '' ws)) \<and> \<not> isspace (last (join '' '' ws))"
proof (induction "'' ''" ws rule: join.induct)
  case 1
  then show ?case by simp
next
  case (2 w)
  then show ?case by (simp add: word_list_Cons)
next
  case (3 w v ws)
  then have w: "w \<noteq> []" "\<forall>c\<in>set w. \<not> isspace c" and r: "word_list (v # ws)"
    by (simp_all add: word_list_Cons)
  from 3(1) [OF r] have j: "join '' '' (v # ws) \<noteq> []" "\<not> isspace (last (join '' '' (v # ws)))"
    by simp_all
  from w have "\<not> isspace (hd w)" by (cases w) simp_all
  with w j show ?case by simp
qed

lemma split_ws_join: "word_list ws \<Longrightarrow> split_ws (join '' '' ws) = ws"
proof (induction "'' ''" ws rule: join.induct)
  case 1
  show ?case by (simp add: split_ws_all_space)
next
  case (2 w)
  then have w: "w \<noteq> []" "\<forall>c\<in>set w. \<not> isspace c"
    by (simp_all add: word_list_Cons)
  have "split_ws (w @ []) = w # split_ws []"
    using w by (rule split_ws_word) simp
  then show ?case by (simp add: split_ws_all_space)
next
  case (3 w v ws)
  then have w: "w \<noteq> []" "\<forall>c\<in>set w. \<not> isspace c" and r: "word_list (v # ws)"
    by (simp_all add: word_list_Cons)
  have "split_ws (w @ CHR '' '' # join '' '' (v # ws)) = w # split_ws (CHR '' '' # join '' '' (v # ws))"
    using w by (rule split_ws_word) (simp add: isspace_space)
  also have "split_ws (CHR '' '' # join '' '' (v # ws)) = split_ws (join '' '' (v # ws))"
    by (rule split_ws_space) (rule isspace_space)
  also have "\<dots> = v # ws" using 3(1) [OF r] .
  finally show ?case by simp
qed

lemma strip_id:
  assumes "s = [] \<or> (\<not> isspace (hd s) \<and> \<not> isspace (last s))"
  shows "strip s = s"
proof (cases "s = []")
  case True
  then show ?thesis by (simp add: strip_def lstrip_def rstrip_def)
next
  case False
  with assms have h: "\<not> isspace (hd s)" and l: "\<not> isspace (last s)" by simp_all
  from False h have a: "dropWhile isspace s = s" by (cases s) simp_all
  from False l have "\<not> isspace (hd (rev s))" by (simp add: hd_rev)
  with False have "dropWhile isspace (rev s) = rev s" by (cases "rev s") simp_all
  with a show ?thesis by (simp add: strip_def lstrip_def rstrip_def)
qed

lemma clean_text_join: "clean_text s = join '' '' (split_ws (strip s))"
  by (simp add: clean_text_def strip_def lstrip_def rstrip_def split_ws_all_space)

lemma clean_text_bounds:
  "clean_text s = [] \<or> (\<not> isspace (hd (clean_text s)) \<and> \<not> isspace (last (clean_text s)))"
proof (cases "split_ws (strip s) = []")
  case True
  then show ?thesis by (simp add: clean_text_join)
next
  case False
  with join_bounds [OF split_ws_word_list False] show ?thesis
    by (simp add: clean_text_join)
qed

lemma clean_text_idem: "clean_text (clean_text s) = clean_text s"
proof -
  have "strip (clean_text s) = clean_text s"
    using clean_text_bounds by (rule strip_id)
  then have "clean_text (clean_text s) = join '' '' (split_ws (clean_text s))"
    by (simp add: clean_text_join)
  also have "split_ws (clean_text s) = split_ws (strip s)"
    unfolding clean_text_join [of s] by (rule split_ws_join) (rule split_ws_word_list)
  finally show ?thesis by (simp add: clean_text_join)
qed

lemma has_double_intro: "isspace a \<Longrightarrow> isspace b \<Longrightarrow> has_double (xs @ a # b # ys)"
  by (induction xs rule: has_double.induct) auto

lemma has_double_word:
  "w \<noteq> [] \<Longrightarrow> \<forall>c\<in>set w. \<not> isspace c \<Longrightarrow> has_double (w @ r) = has_double (last w # r)"
  by (induction w rule: has_double.induct) auto

lemma has_double_join: "word_list ws \<Longrightarrow> \<not> has_double (join '' '' ws)"
proof (induction "'' ''" ws rule: join.induct)
  case 1
  show ?case by simp
next
  case (2 w)
  then have w: "w \<noteq> []" "\<forall>c\<in>set w. \<not> isspace c"
    by (simp_all add: word_list_Cons)
  then have "has_double (w @ []) = has_double [last w]" by (rule has_double_word)
  then show ?case by simp
next
  case (3 w v ws)
  then have w: "w \<noteq> []" "\<forall>c\<in>set w. \<not> isspace c" and r: "word_list (v # ws)"
    by (simp_all add: word_list_Cons)
  let ?J = "join '' '' (v # ws)"
  from join_bounds [OF r] obtain j J where J: "?J = j # J" "\<not> isspace j"
    by (cases ?J) auto
  from w have lw: "\<not> isspace (last w)" by simp
  have "has_double (w @ CHR '' '' # ?J) = has_double (last w # CHR '' '' # ?J)"
    using w by (rule has_double_word)
  also have "\<dots> = has_double ?J"
    using lw J by simp
  finally show ?case using 3(1) [OF r] by simp
qed

lemma clean_text_no_double: "\<not> has_double (clean_text s)"
  unfolding clean_text_join by (rule has_double_join) (rule split_ws_word_list)

text \<open>
  C10. \<^const>\<open>clean_text\<close> is idempotent; its result neither starts nor ends with a whitespace
  character, and nowhere holds two space characters in a row.
\<close>

theorem clean_text_idempotent:
  "clean_text (clean_text s) = clean_text s
   \<and> (clean_text s = [] \<or> (\<not> isspace (hd (clean_text s)) \<and> \<not> isspace (last (clean_text s))))
   \<and> (\<nexists>xs ys. clean_text s = xs @ [CHR '' '', CHR '' ''] @ ys)"
proof (intro conjI)
  show "clean_text (clean_text s) = clean_text s" by (rule clean_text_idem)
  show "clean_text s = [] \<or> (\<not> isspace (hd (clean_text s)) \<and> \<not> isspace (last (clean_text s)))"
    by (rule clean_text_bounds)
  show "\<nexists>xs ys. clean_text s = xs @ [CHR '' '', CHR '' ''] @ ys"
  proof
    assume "\<exists>xs ys. clean_text s = xs @ [CHR '' '', CHR '' ''] @ ys"
    then obtain xs ys where "clean_text s = xs @ CHR '' '' # CHR '' '' # ys" by auto
    then have "has_double (clean_text s)"
      by (simp only: has_double_intro [OF isspace_space isspace_space])
    with clean_text_no_double show False by blast
  qed
qed

theorem clean_text_idempotent_witness:
  "clean_text ''  Hello   World '' = ''Hello World''
   \<and> clean_text (clean_text ''  Hello   World '') = ''Hello World''"
proof -
  have e: "clean_text ''  Hello   World '' = ''Hello World''"
    by code_simp
  from clean_text_idempotent [of "''  Hello   World ''"]
  have "clean_text (clean_text ''  Hello   World '') = clean_text ''  Hello   World ''"
    by (rule conjunct1)
  with e show ?thesis by simp
qed

section \<open>Properties of parse_article_from_card\<close>

lemma parse_article_from_card_result:
  assumes "parse_article_from_card now c = Some a"
  obtains t where "find_title_link c = Some t" and "clean_text (tag_text t) \<noteq> []"
    and "title a = clean_text (tag_text t)"
    and "url a = (let href = tag_get t ''href'' [] in
                  if href \<noteq> [] \<and> \<not> startswith href ''http''
                  then (if startswith href ''/'' then BASE_URL @ href else BASE_URL @ ''/'' @ href)
                  else href)"
    and "author a = (case find_author c of Some author_tag \<Rightarrow> clean_text (tag_text author_tag)
                     | None \<Rightarrow> ''Unknown'')"
    and "publish_time a =
           (let raw_time = (case find_time c of
                              Some time_tag \<Rightarrow>
                                if has_attr time_tag ''datetime''
                                then tag_get time_tag ''datetime'' [] else []
                            | None \<Rightarrow> [])
            in if raw_time \<noteq> [] then
                 (case fromisoformat (replace_char CHR ''Z'' ''+00:00'' raw_time) of
                    Some dt_obj \<Rightarrow> strftime_minutes dt_obj
                  | None \<Rightarrow> take 19 raw_time)
               else ''Unknown'')"
    and "hash a = get_hash (title a)"
    and "source a = ''TechCrunch''" and "category a = None" and "excerpt a = None"
    and "scraped_at a = now"
proof -
  from assms obtain t where t: "find_title_link c = Some t"
    by (cases "find_title_link c") (simp_all add: parse_article_from_card_def)
  have ne: "clean_text (tag_text t) \<noteq> []"
  proof
    assume "clean_text (tag_text t) = []"
    with assms t show False by (simp add: parse_article_from_card_def)
  qed
  note d = assms [unfolded parse_article_from_card_def t, simplified ne Let_def option.case if_False]
  show ?thesis
  proof (rule that [OF t ne])
    show "title a = clean_text (tag_text t)" using d by auto
    show "url a = (let href = tag_get t ''href'' [] in
                  if href \<noteq> [] \<and> \<not> startswith href ''http''
                  then (if startswith href ''/'' then BASE_URL @ href else BASE_URL @ ''/'' @ href)
                  else href)" using d by (auto simp: Let_def)
    show "author a = (case find_author c of Some author_tag \<Rightarrow> clean_text (tag_text author_tag)
                     | None \<Rightarrow> ''Unknown'')" using d by auto
    show "publish_time a =
           (let raw_time = (case find_time c of
                              Some time_tag \<Rightarrow>
                                if has_attr time_tag ''datetime''
                                then tag_get time_tag ''datetime'' [] else []
                            | None \<Rightarrow> [])
            in if raw_time \<noteq> [] then
                 (case fromisoformat (replace_char CHR ''Z'' ''+00:00'' raw_time) of
                    Some dt_obj \<Rightarrow> strftime_minutes dt_obj
                  | None \<Rightarrow> take 19 raw_time)
               else ''Unknown'')" using d by (auto simp: Let_def split: option.splits)
    show "hash a = get_hash (title a)" using d by auto
    show "source a = ''TechCrunch''" using d by auto
    show "category a = None" using d by auto
    show "excerpt a = None" using d by auto
    show "scraped_at a = now" using d by auto
  qed
qed


lemma iso_example:
  "fromisoformat (replace_char CHR ''Z'' ''+00:00'' ''2024-01-15T10:30:00Z'')
   = Some \<lparr>dt_year = 2024, dt_month = 1, dt_day = 15, dt_hour = 10, dt_minute = 30,
            dt_second = 0, dt_microsecond = 0, dt_utcoffset = Some 0\<rparr>"
  by code_simp

lemma strftime_example:
  "strftime_minutes \<lparr>dt_year = 2024, dt_month = 1, dt_day = 15, dt_hour = 10, dt_minute = 30,
            dt_second = 0, dt_microsecond = 0, dt_utcoffset = Some 0\<rparr> = ''2024-01-15 10:30''"
  by code_simp

lemma iso_malformed:
  "fromisoformat (replace_char CHR ''Z'' ''+00:00'' ''not-a-date-xxxxxxxxxx'') = None"
  by code_simp

lemma clean_text_examples:
  "clean_text ''  Hello   World '' = ''Hello World''"
  "clean_text ''Hello World'' = ''Hello World''"
  "clean_text ''Hello'' = ''Hello''"
  "clean_text '' Jane  Doe '' = ''Jane Doe''"
  "clean_text ''  '' = []"
  by code_simp+

lemmas parse_eval =
  parse_article_from_card_def Let_def tag_get_def has_attr_def startswith_def BASE_URL_def
  clean_text_examples iso_example strftime_example iso_malformed

lemma parse_card_full:
  "parse_article_from_card now card_full =
     Some \<lparr>source = ''TechCrunch'', title = ''Hello World'',
            url = ''https://techcrunch.com/2024/01/01/foo'', author = ''Jane Doe'',
            publish_time = ''2024-01-15 10:30'', hash = get_hash ''Hello World'',
            category = None, excerpt = None, scraped_at = now\<rparr>"
  by (simp add: card_full_def parse_eval)

lemma parse_card_no_href:
  "parse_article_from_card now card_no_href =
     Some \<lparr>source = ''TechCrunch'', title = ''Hello World'', url = [], author = ''Unknown'',
            publish_time = ''Unknown'', hash = get_hash ''Hello World'',
            category = None, excerpt = None, scraped_at = now\<rparr>"
  by (simp add: card_no_href_def parse_eval)

lemma parse_card_blank_author:
  "parse_article_from_card now card_blank_author =
     Some \<lparr>source = ''TechCrunch'', title = ''Hello'', url = ''https://example.com/a'',
            author = [], publish_time = ''not-a-date-xxxxxxxx'', hash = get_hash ''Hello'',
            category = None, excerpt = None, scraped_at = now\<rparr>"
  by (simp add: card_blank_author_def parse_eval)

lemma parse_card_bare_href:
  "parse_article_from_card now card_bare_href =
     Some \<lparr>source = ''TechCrunch'', title = ''Hello'', url = ''https://techcrunch.com/2024/bar'',
            author = ''Unknown'', publish_time = ''Unknown'', hash = get_hash ''Hello'',
            category = None, excerpt = None, scraped_at = now\<rparr>"
  by (simp add: card_bare_href_def parse_eval)

lemma parse_card_ftp_href:
  "parse_article_from_card now card_ftp_href =
     Some \<lparr>source = ''TechCrunch'', title = ''Hello'',
            url = ''https://techcrunch.com/ftp://example.com/a'',
            author = ''Unknown'', publish_time = ''Unknown'', hash = get_hash ''Hello'',
            category = None, excerpt = None, scraped_at = now\<rparr>"
  by (simp add: card_ftp_href_def parse_eval)

lemma parse_card_http_word_href:
  "parse_article_from_card now card_http_word_href =
     Some \<lparr>source = ''TechCrunch'', title = ''Hello'', url = ''http-status-codes/intro'',
            author = ''Unknown'', publish_time = ''Unknown'', hash = get_hash ''Hello'',
            category = None, excerpt = None, scraped_at = now\<rparr>"
  by (simp add: card_http_word_href_def parse_eval)

lemma get_hash_example: "get_hash ''Hello World'' = ''b10a8db164e0754105b7a99be72e3fe5''"
  by code_simp


lemma BASE_URL_nonempty: "BASE_URL \<noteq> []"
  by (simp add: BASE_URL_def)

lemma strftime_minutes_nonempty: "strftime_minutes d \<noteq> []"
  by (simp add: strftime_minutes_def)

text \<open>
  C2, as stated, fails: a card whose title link has no \<^verbatim>\<open>href\<close> is emitted, with the
  empty string as its \<^verbatim>\<open>url\<close>.
\<close>

theorem emitted_url_nonempty_counterexample:
  "map_option title (parse_article_from_card ''2024-01-01 00:00:00'' card_no_href)
     = Some ''Hello World''
   \<and> map_option url (parse_article_from_card ''2024-01-01 00:00:00'' card_no_href) = Some []"
  by (simp add: parse_card_no_href)

text \<open>
  C2, amended. A card is dropped (\<^const>\<open>None\<close>) exactly when it has no title link or the
  text of the link cleans to the empty string. Every emitted Article has a non-empty
  title, the cleaned text of the link; its \<^verbatim>\<open>url\<close> is empty exactly when the \<^verbatim>\<open>href\<close> is
  absent or empty.
\<close>

theorem emitted_title_nonempty:
  "(parse_article_from_card now c = None
      \<longleftrightarrow> (\<forall>t. find_title_link c = Some t \<longrightarrow> clean_text (tag_text t) = []))
   \<and> (\<forall>a. parse_article_from_card now c = Some a \<longrightarrow>
         title a \<noteq> []
         \<and> (\<exists>t. find_title_link c = Some t \<and> title a = clean_text (tag_text t)
                \<and> (url a = [] \<longleftrightarrow> tag_get t ''href'' [] = [])))"
proof (intro conjI allI impI)
  show "parse_article_from_card now c = None
      \<longleftrightarrow> (\<forall>t. find_title_link c = Some t \<longrightarrow> clean_text (tag_text t) = [])"
    by (cases "find_title_link c") (simp_all add: parse_article_from_card_def Let_def)
next
  fix a assume a: "parse_article_from_card now c = Some a"
  then obtain t where t: "find_title_link c = Some t" "clean_text (tag_text t) \<noteq> []"
      "title a = clean_text (tag_text t)"
      "url a = (let href = tag_get t ''href'' [] in
                  if href \<noteq> [] \<and> \<not> startswith href ''http''
                  then (if startswith href ''/'' then BASE_URL @ href else BASE_URL @ ''/'' @ href)
                  else href)"
    by (rule parse_article_from_card_result)
  from t(2,3) show "title a \<noteq> []" by simp
  have "url a = [] \<longleftrightarrow> tag_get t ''href'' [] = []"
    using t(4) BASE_URL_nonempty by (simp add: Let_def)
  with t(1,3) show "\<exists>t. find_title_link c = Some t \<and> title a = clean_text (tag_text t)
                \<and> (url a = [] \<longleftrightarrow> tag_get t ''href'' [] = [])"
    by blast
qed

theorem emitted_title_nonempty_witness:
  "parse_article_from_card ''2024-01-01 00:00:00'' card_full \<noteq> None
   \<and> map_option title (parse_article_from_card ''2024-01-01 00:00:00'' card_full)
       = Some ''Hello World''
   \<and> clean_text ''  Hello   World '' \<noteq> []"
  using emitted_title_nonempty [of "''2024-01-01 00:00:00''" card_full]
  by (simp add: parse_card_full clean_text_examples)

text \<open>
  C3, as stated, fails: a card whose author element holds only whitespace is emitted
  with the empty string as its \<^verbatim>\<open>author\<close>.
\<close>

theorem author_never_empty_counterexample:
  "map_option author (parse_article_from_card ''2024-01-01 00:00:00'' card_blank_author) = Some []"
  by (simp add: parse_card_blank_author)

text \<open>
  C3, amended. In every emitted Article \<^verbatim>\<open>publish_time\<close> is not empty. The \<^verbatim>\<open>author\<close> is
  \<^verbatim>\<open>"Unknown"\<close> when the card has no author element, and the cleaned text of the element
  otherwise. \<^verbatim>\<open>publish_time\<close> is \<^verbatim>\<open>"Unknown"\<close> when the card has no time element or the
  element has no \<^verbatim>\<open>datetime\<close> attribute.
\<close>

theorem author_and_publish_time_sentinels:
  assumes "parse_article_from_card now c = Some a"
  shows "publish_time a \<noteq> []
         \<and> (find_author c = None \<longrightarrow> author a = ''Unknown'')
         \<and> (\<forall>t. find_author c = Some t \<longrightarrow> author a = clean_text (tag_text t))
         \<and> (find_time c = None \<longrightarrow> publish_time a = ''Unknown'')
         \<and> (\<forall>t. find_time c = Some t \<and> \<not> has_attr t ''datetime''
                \<longrightarrow> publish_time a = ''Unknown'')"
proof -
  from assms obtain t :: tag where
    au: "author a = (case find_author c of Some author_tag \<Rightarrow> clean_text (tag_text author_tag)
                     | None \<Rightarrow> ''Unknown'')"
    and pt: "publish_time a =
           (let raw_time = (case find_time c of
                              Some time_tag \<Rightarrow>
                                if has_attr time_tag ''datetime''
                                then tag_get time_tag ''datetime'' [] else []
                            | None \<Rightarrow> [])
            in if raw_time \<noteq> [] then
                 (case fromisoformat (replace_char CHR ''Z'' ''+00:00'' raw_time) of
                    Some dt_obj \<Rightarrow> strftime_minutes dt_obj
                  | None \<Rightarrow> take 19 raw_time)
               else ''Unknown'')"
    by (rule parse_article_from_card_result)
  have "publish_time a \<noteq> []"
    unfolding pt by (simp add: Let_def strftime_minutes_nonempty split: option.split)
  moreover have "find_author c = None \<longrightarrow> author a = ''Unknown''"
    using au by simp
  moreover have "\<forall>t. find_author c = Some t \<longrightarrow> author a = clean_text (tag_text t)"
    using au by simp
  moreover have "find_time c = None \<longrightarrow> publish_time a = ''Unknown''"
    using pt by simp
  moreover have "\<forall>t. find_time c = Some t \<and> \<not> has_attr t ''datetime''
                \<longrightarrow> publish_time a = ''Unknown''"
    using pt by simp
  ultimately show ?thesis by blast
qed

theorem author_and_publish_time_sentinels_witness:
  "map_option author (parse_article_from_card ''2024-01-01 00:00:00'' card_no_href)
     = Some ''Unknown''
   \<and> map_option publish_time (parse_article_from_card ''2024-01-01 00:00:00'' card_no_href)
     = Some ''Unknown''
   \<and> map_option publish_time (parse_article_from_card ''2024-01-01 00:00:00'' card_bare_href)
     = Some ''Unknown''
   \<and> map_option author (parse_article_from_card ''2024-01-01 00:00:00'' card_full)
     = Some ''Jane Doe''"
proof -
  have f: "find_author card_no_href = None" "find_time card_no_href = None"
    by (simp_all add: card_no_href_def)
  have g: "find_time card_bare_href = Some (Tag [] Map.empty)"
    "\<not> has_attr (Tag [] Map.empty) ''datetime''"
    by (simp_all add: card_bare_href_def has_attr_def)
  have h: "find_author card_full = Some (Tag '' Jane  Doe '' Map.empty)"
    by (simp add: card_full_def)
  from author_and_publish_time_sentinels [OF parse_card_no_href [of "''2024-01-01 00:00:00''"]]
    author_and_publish_time_sentinels [OF parse_card_bare_href [of "''2024-01-01 00:00:00''"]]
    author_and_publish_time_sentinels [OF parse_card_full [of "''2024-01-01 00:00:00''"]]
    f g h
  show ?thesis
    by (simp add: parse_card_no_href parse_card_bare_href parse_card_full clean_text_examples)
qed

text \<open>
  C4. For an emitted Article whose time element has the \<^verbatim>\<open>datetime\<close> attribute
  \<^verbatim>\<open>2024-01-15T10:30:00Z\<close>, \<^verbatim>\<open>publish_time\<close> is \<^verbatim>\<open>2024-01-15 10:30\<close>; with the attribute
  \<^verbatim>\<open>not-a-date-xxxxxxxxxx\<close> it is the first 19 characters of the attribute; and so it is
  for every non-empty attribute that \<^const>\<open>fromisoformat\<close> rejects.
\<close>

theorem publish_time_examples:
  assumes "parse_article_from_card now c = Some a" and "find_time c = Some t"
  shows "(attrs t ''datetime'' = Some ''2024-01-15T10:30:00Z''
            \<longrightarrow> publish_time a = ''2024-01-15 10:30'')
         \<and> (attrs t ''datetime'' = Some ''not-a-date-xxxxxxxxxx''
            \<longrightarrow> publish_time a = take 19 ''not-a-date-xxxxxxxxxx'')
         \<and> (\<forall>raw. attrs t ''datetime'' = Some raw \<and> raw \<noteq> []
                  \<and> fromisoformat (replace_char CHR ''Z'' ''+00:00'' raw) = None
            \<longrightarrow> publish_time a = take 19 raw)"
proof -
  from assms(1) obtain t' :: tag where
    pt: "publish_time a =
           (let raw_time = (case find_time c of
                              Some time_tag \<Rightarrow>
                                if has_attr time_tag ''datetime''
                                then tag_get time_tag ''datetime'' [] else []
                            | None \<Rightarrow> [])
            in if raw_time \<noteq> [] then
                 (case fromisoformat (replace_char CHR ''Z'' ''+00:00'' raw_time) of
                    Some dt_obj \<Rightarrow> strftime_minutes dt_obj
                  | None \<Rightarrow> take 19 raw_time)
               else ''Unknown'')"
    by (rule parse_article_from_card_result)
  have raw: "publish_time a =
               (case fromisoformat (replace_char CHR ''Z'' ''+00:00'' r) of
                  Some dt_obj \<Rightarrow> strftime_minutes dt_obj
                | None \<Rightarrow> take 19 r)"
    if "attrs t ''datetime'' = Some r" "r \<noteq> []" for r
    using that pt assms(2) by (simp add: has_attr_def tag_get_def)
  have "attrs t ''datetime'' = Some ''2024-01-15T10:30:00Z''
            \<longrightarrow> publish_time a = ''2024-01-15 10:30''"
    using raw [of "''2024-01-15T10:30:00Z''"] by (simp add: iso_example strftime_example)
  moreover have "attrs t ''datetime'' = Some ''not-a-date-xxxxxxxxxx''
            \<longrightarrow> publish_time a = take 19 ''not-a-date-xxxxxxxxxx''"
    using raw [of "''not-a-date-xxxxxxxxxx''"] by (simp add: iso_malformed)
  moreover have "\<forall>r. attrs t ''datetime'' = Some r \<and> r \<noteq> []
                  \<and> fromisoformat (replace_char CHR ''Z'' ''+00:00'' r) = None
            \<longrightarrow> publish_time a = take 19 r"
    using raw by simp
  ultimately show ?thesis by blast
qed

theorem publish_time_examples_witness:
  "map_option publish_time (parse_article_from_card ''2024-01-01 00:00:00'' card_full)
     = Some ''2024-01-15 10:30''
   \<and> map_option publish_time (parse_article_from_card ''2024-01-01 00:00:00'' card_blank_author)
     = Some ''not-a-date-xxxxxxxx''
   \<and> length ''not-a-date-xxxxxxxx'' = 19"
proof -
  have f: "find_time card_full = Some (Tag [] [''datetime'' \<mapsto> ''2024-01-15T10:30:00Z''])"
    by (simp add: card_full_def)
  have g: "find_time card_blank_author
             = Some (Tag [] [''datetime'' \<mapsto> ''not-a-date-xxxxxxxxxx''])"
    by (simp add: card_blank_author_def)
  from publish_time_examples [OF parse_card_full [of "''2024-01-01 00:00:00''"] f]
    publish_time_examples [OF parse_card_blank_author [of "''2024-01-01 00:00:00''"] g]
  show ?thesis
    by (simp add: parse_card_full parse_card_blank_author)
qed

text \<open>
  C5, as stated, fails: the code tells an absolute \<^verbatim>\<open>href\<close> from a relative one by the
  prefix \<^verbatim>\<open>http\<close> alone. The absolute \<^verbatim>\<open>ftp://example.com/a\<close> is not left unchanged: the
  origin and \<^verbatim>\<open>/\<close> are put before it. The relative path \<^verbatim>\<open>http-status-codes/intro\<close> is not
  resolved against the origin: it is emitted as it is.
\<close>

theorem relative_href_resolved_counterexample:
  "map_option url (parse_article_from_card ''2024-01-01 00:00:00'' card_ftp_href)
     = Some ''https://techcrunch.com/ftp://example.com/a''
   \<and> map_option url (parse_article_from_card ''2024-01-01 00:00:00'' card_http_word_href)
     = Some ''http-status-codes/intro''"
  by (simp add: parse_card_ftp_href parse_card_http_word_href)

text \<open>
  C5, amended. For an emitted Article whose title link has the \<^verbatim>\<open>href\<close> \<open>h\<close>: when \<open>h\<close> starts
  with \<^verbatim>\<open>/\<close>, the \<^verbatim>\<open>url\<close> is the origin followed by \<open>h\<close>; when \<open>h\<close> is not empty and starts
  neither with \<^verbatim>\<open>/\<close> nor with \<^verbatim>\<open>http\<close>, the \<^verbatim>\<open>url\<close> is origin, \<^verbatim>\<open>/\<close>, \<open>h\<close>; when \<open>h\<close> starts
  with \<^verbatim>\<open>http\<close>, the \<^verbatim>\<open>url\<close> is \<open>h\<close> unchanged; when \<open>h\<close> is empty, so is the \<^verbatim>\<open>url\<close>.
\<close>

theorem relative_href_resolved:
  assumes "parse_article_from_card now c = Some a" and "find_title_link c = Some t"
    and "attrs t ''href'' = Some h"
  shows "(startswith h ''/'' \<longrightarrow> url a = BASE_URL @ h)
         \<and> (h \<noteq> [] \<and> \<not> startswith h ''/'' \<and> \<not> startswith h ''http''
              \<longrightarrow> url a = BASE_URL @ ''/'' @ h)
         \<and> (startswith h ''http'' \<longrightarrow> url a = h)
         \<and> (h = [] \<longrightarrow> url a = [])"
proof -
  from assms(1) obtain t' where "find_title_link c = Some t'"
    and "url a = (let href = tag_get t' ''href'' [] in
                  if href \<noteq> [] \<and> \<not> startswith href ''http''
                  then (if startswith href ''/'' then BASE_URL @ href else BASE_URL @ ''/'' @ href)
                  else href)"
    by (rule parse_article_from_card_result)
  with assms(2,3) have u: "url a = (if h \<noteq> [] \<and> \<not> startswith h ''http''
                  then (if startswith h ''/'' then BASE_URL @ h else BASE_URL @ ''/'' @ h)
                  else h)"
    by (simp add: tag_get_def Let_def)
  have "startswith h ''/'' \<Longrightarrow> h \<noteq> [] \<and> \<not> startswith h ''http''"
    by (cases h) (auto simp: startswith_def)
  with u show ?thesis by auto
qed

theorem relative_href_resolved_witness:
  "map_option url (parse_article_from_card ''2024-01-01 00:00:00'' card_full)
     = Some ''https://techcrunch.com/2024/01/01/foo''
   \<and> map_option url (parse_article_from_card ''2024-01-01 00:00:00'' card_bare_href)
     = Some ''https://techcrunch.com/2024/bar''
   \<and> map_option url (parse_article_from_card ''2024-01-01 00:00:00'' card_blank_author)
     = Some ''https://example.com/a''"
proof -
  have f: "find_title_link card_full
             = Some (Tag ''  Hello   World '' [''href'' \<mapsto> ''/2024/01/01/foo''])"
    "attrs (Tag ''  Hello   World '' [''href'' \<mapsto> ''/2024/01/01/foo'']) ''href''
       = Some ''/2024/01/01/foo''"
    by (simp_all add: card_full_def)
  have g: "find_title_link card_bare_href = Some (Tag ''Hello'' [''href'' \<mapsto> ''2024/bar''])"
    "attrs (Tag ''Hello'' [''href'' \<mapsto> ''2024/bar'']) ''href'' = Some ''2024/bar''"
    by (simp_all add: card_bare_href_def)
  have h: "find_title_link card_blank_author
             = Some (Tag ''Hello'' [''href'' \<mapsto> ''https://example.com/a''])"
    "attrs (Tag ''Hello'' [''href'' \<mapsto> ''https://example.com/a'']) ''href''
       = Some ''https://example.com/a''"
    by (simp_all add: card_blank_author_def)
  from relative_href_resolved [OF parse_card_full [of "''2024-01-01 00:00:00''"] f]
    relative_href_resolved [OF parse_card_bare_href [of "''2024-01-01 00:00:00''"] g]
    relative_href_resolved [OF parse_card_blank_author [of "''2024-01-01 00:00:00''"] h]
  show ?thesis
    by (simp add: parse_card_full parse_card_bare_href parse_card_blank_author
        startswith_def BASE_URL_def)
qed

text \<open>
  C8. \<^const>\<open>get_hash\<close> is a function of the text alone (no salt, no state), and the \<^verbatim>\<open>hash\<close>
  of an emitted Article is \<^const>\<open>get_hash\<close> of its title: two Articles with the same title,
  from any two cards at any two clock readings, carry the same hash.
\<close>

theorem same_title_same_hash:
  assumes "parse_article_from_card now1 c1 = Some a1"
    and "parse_article_from_card now2 c2 = Some a2"
    and "title a1 = title a2"
  shows "hash a1 = hash a2 \<and> hash a1 = get_hash (title a1)"
proof -
  from assms(1) obtain t1 :: tag where "hash a1 = get_hash (title a1)"
    by (rule parse_article_from_card_result)
  moreover from assms(2) obtain t2 :: tag where "hash a2 = get_hash (title a2)"
    by (rule parse_article_from_card_result)
  ultimately show ?thesis using assms(3) by simp
qed

theorem same_title_same_hash_witness:
  "map_option hash (parse_article_from_card ''2024-01-01 00:00:00'' card_full)
     = Some ''b10a8db164e0754105b7a99be72e3fe5''
   \<and> map_option hash (parse_article_from_card ''2025-06-30 12:00:00'' card_no_href)
     = Some ''b10a8db164e0754105b7a99be72e3fe5''"
  using same_title_same_hash [OF parse_card_full [of "''2024-01-01 00:00:00''"]
      parse_card_no_href [of "''2025-06-30 12:00:00''"]]
  by (simp add: parse_card_full parse_card_no_href get_hash_example)

section \<open>Properties of fetch_page, scrape_page and scrape_all_pages\<close>

lemma fetched_append: "fetched (xs @ ys) = fetched xs @ fetched ys"
  by (induction xs rule: fetched.induct) simp_all

lemma Get_fetched: "Get u \<in> set evs \<longleftrightarrow> u \<in> set (fetched evs)"
  by (induction evs rule: fetched.induct) auto

lemma fetch_page_fst: "fst (fetch_page w u st) = fetch_result w u"
  by (simp add: fetch_page_def fetch_result_def Let_def split: response.split body.split)

lemma fetch_page_max_pages: "max_pages (snd (fetch_page w u st)) = max_pages st"
  by (simp add: fetch_page_def Let_def split: response.split body.split)

lemma fetch_page_trace: "trace (snd (fetch_page w u st)) = trace st @ [Get u]"
  by (simp add: fetch_page_def Let_def split: response.split body.split)

lemma scrape_page_fst: "fst (scrape_page w p st) = page_articles w p"
proof (cases "fetch_page w (page_url p) st")
  case (Pair r st1)
  then have "fetch_result w (page_url p) = r"
    using fetch_page_fst [of w "page_url p" st] by simp
  with Pair show ?thesis
    by (cases r) (simp_all add: scrape_page_def page_articles_def page_cards_def)
qed

lemma scrape_page_snd: "snd (scrape_page w p st) = snd (fetch_page w (page_url p) st)"
  by (cases "fetch_page w (page_url p) st") (simp add: scrape_page_def split: option.split)

lemma scrape_page_max_pages: "max_pages (snd (scrape_page w p st)) = max_pages st"
  by (simp add: scrape_page_snd fetch_page_max_pages)

lemma scrape_page_trace: "trace (snd (scrape_page w p st)) = trace st @ [Get (page_url p)]"
  by (simp add: scrape_page_snd fetch_page_trace)

lemma parse_cards_map_filter:
  "parse_cards clk i cards acc
     = acc @ List.map_filter (\<lambda>(j, c). parse_article_from_card (clk j) c) (enumerate i cards)"
  by (induction cards arbitrary: i acc) (simp_all split: option.split)

lemma length_map_filter_le: "length (List.map_filter f xs) \<le> length xs"
  by (simp add: List.map_filter_def)

lemma page_articles_length: "length (page_articles w p) \<le> length (page_cards w p)"
  unfolding page_articles_def parse_cards_map_filter
  using length_map_filter_le [of _ "enumerate 0 (page_cards w p)"] by simp

lemma scrape_loop_run:
  "\<exists>m evs. p - 1 \<le> m \<and> m \<le> max n (p - 1) \<and> (p \<le> n \<longrightarrow> p \<le> m)
     \<and> fst (scrape_loop w n p acc st) = acc @ concat (map (page_articles w) [p..m])
     \<and> trace (snd (scrape_loop w n p acc st)) = trace st @ evs
     \<and> fetched evs = map page_url [p..m]
     \<and> (\<forall>q. p \<le> q \<and> q < m \<longrightarrow> page_articles w q \<noteq> [])
     \<and> (m < n \<longrightarrow> page_articles w m = [])"
proof (induction w n p acc st rule: scrape_loop.induct)
  case (1 w n p acc st)
  show ?case
  proof (cases "p \<le> n")
    case False
    then have r: "scrape_loop w n p acc st = (acc, st)"
      by (subst scrape_loop.simps) simp
    show ?thesis
      by (rule exI [of _ "p - 1"], rule exI [of _ "[]"]) (use False r in auto)
  next
    case True
    obtain arts st1 where sp: "scrape_page w p st = (arts, st1)"
      by (cases "scrape_page w p st")
    have arts: "arts = page_articles w p"
      using scrape_page_fst [of w p st] sp by simp
    have tr1: "trace st1 = trace st @ [Get (page_url p)]"
      using scrape_page_trace [of w p st] sp by simp
    show ?thesis
    proof (cases "arts = []")
      case e: True
      have r: "scrape_loop w n p acc st = (acc, st1)"
        by (subst scrape_loop.simps) (simp add: True sp e)
      show ?thesis
        by (rule exI [of _ p], rule exI [of _ "[Get (page_url p)]"])
          (use True r tr1 e arts in auto)
    next
      case ne: False
      let ?st2 = "if p < max_pages st1 then random_delay st1 else st1"
      have r: "scrape_loop w n p acc st = scrape_loop w n (p + 1) (acc @ arts) ?st2"
        by (subst scrape_loop.simps) (simp add: True sp ne)
      from "1.IH" [OF True sp [symmetric] ne]
      obtain m evs where ih: "p \<le> m" "m \<le> max n p" "p + 1 \<le> n \<longrightarrow> p + 1 \<le> m"
        "fst (scrape_loop w n (p + 1) (acc @ arts) ?st2)
           = (acc @ arts) @ concat (map (page_articles w) [p + 1..m])"
        "trace (snd (scrape_loop w n (p + 1) (acc @ arts) ?st2)) = trace ?st2 @ evs"
        "fetched evs = map page_url [p + 1..m]"
        "\<forall>q. p + 1 \<le> q \<and> q < m \<longrightarrow> page_articles w q \<noteq> []"
        "m < n \<longrightarrow> page_articles w m = []"
        by auto
      have up: "[p..m] = p # [p + 1..m]"
        using ih(1) by (simp add: upto_rec1)
      obtain d where d: "trace ?st2 = trace st @ Get (page_url p) # d" "fetched d = []"
        using tr1 by (cases "p < max_pages st1") (simp_all add: random_delay_def)
      have nonempty: "\<forall>q. p \<le> q \<and> q < m \<longrightarrow> page_articles w q \<noteq> []"
      proof (intro allI impI)
        fix q assume "p \<le> q \<and> q < m"
        then show "page_articles w q \<noteq> []"
          using ih(7) ne arts by (cases "q = p") auto
      qed
      show ?thesis
      proof (rule exI [of _ m], rule exI [of _ "Get (page_url p) # d @ evs"], intro conjI)
        show "p - 1 \<le> m" using ih(1) by simp
        show "m \<le> max n (p - 1)" using ih(2) True by simp
        show "p \<le> n \<longrightarrow> p \<le> m" using ih(1) by simp
        show "fst (scrape_loop w n p acc st) = acc @ concat (map (page_articles w) [p..m])"
          using ih(4) r up arts by simp
        show "trace (snd (scrape_loop w n p acc st)) = trace st @ Get (page_url p) # d @ evs"
          using ih(5) r d(1) by simp
        show "fetched (Get (page_url p) # d @ evs) = map page_url [p..m]"
          using ih(6) d(2) up by (simp add: fetched_append)
        show "\<forall>q. p \<le> q \<and> q < m \<longrightarrow> page_articles w q \<noteq> []" by (rule nonempty)
        show "m < n \<longrightarrow> page_articles w m = []" by (rule ih(8))
      qed
    qed
  qed
qed


subsection \<open>Page URLs are distinct\<close>

lemma digit_char_inj:
  assumes "a < 10" "b < 10" "digit_char a = digit_char b"
  shows "a = b"
proof -
  have "distinct ''0123456789''" by simp
  moreover have "a < length ''0123456789''" "b < length ''0123456789''"
    using assms(1,2) by simp_all
  ultimately show ?thesis
    using assms(3) unfolding digit_char_def by (simp only: nth_eq_iff_index_eq)
qed

lemma str_digits_nonempty: "str_digits n \<noteq> []"
  by (subst str_digits.simps) simp

lemma str_digits_last: "0 \<le> n \<Longrightarrow> last (str_digits n) = digit_char (nat (n mod 10))"
  by (subst str_digits.simps) simp

lemma str_digits_butlast:
  "butlast (str_digits n) = (if n < 10 then [] else str_digits (n div 10))"
  by (subst str_digits.simps) simp

lemma str_digits_inj:
  "0 \<le> n \<Longrightarrow> 0 \<le> m \<Longrightarrow> str_digits n = str_digits m \<Longrightarrow> n = m"
proof (induction n arbitrary: m rule: str_digits.induct)
  case (1 n)
  from "1.prems" have "digit_char (nat (n mod 10)) = digit_char (nat (m mod 10))"
    using str_digits_last [of n] str_digits_last [of m] by simp
  moreover have "nat (n mod 10) < 10" "nat (m mod 10) < 10" by simp_all
  ultimately have "nat (n mod 10) = nat (m mod 10)" by (metis digit_char_inj)
  then have md: "n mod 10 = m mod 10" by simp
  from "1.prems" have bl: "(if n < 10 then [] else str_digits (n div 10))
      = (if m < 10 then [] else str_digits (m div 10))"
    using str_digits_butlast [of n] str_digits_butlast [of m] by simp
  show ?case
  proof (cases "n < 10")
    case True
    have "m < 10"
    proof (rule ccontr)
      assume "\<not> m < 10"
      with True bl have "str_digits (m div 10) = []" by simp
      then show False using str_digits_nonempty [of "m div 10"] by simp
    qed
    with True md "1.prems" show ?thesis by simp
  next
    case False
    have m: "\<not> m < 10"
    proof
      assume "m < 10"
      with False bl have "str_digits (n div 10) = []" by simp
      then show False using str_digits_nonempty [of "n div 10"] by simp
    qed
    with False bl have "str_digits (n div 10) = str_digits (m div 10)" by simp
    with "1.IH" [OF False, of "m div 10"] "1.prems" have "n div 10 = m div 10" by simp
    with md show ?thesis by (metis div_mult_mod_eq)
  qed
qed

lemma page_url_inj:
  assumes "1 \<le> i" "1 \<le> j" "page_url i = page_url j"
  shows "i = j"
proof (cases "i = 1 \<or> j = 1")
  case True
  with assms(3) show ?thesis by (auto simp: page_url_def split: if_splits)
next
  case False
  with assms(3) have "str_int i = str_int j" by (simp add: page_url_def)
  with assms(1,2) have "str_digits i = str_digits j" by (simp add: str_int_def)
  with assms(1,2) show ?thesis using str_digits_inj [of i j] by simp
qed

lemma length_concat_le:
  "(\<forall>x\<in>set xs. length (f x) \<le> N) \<Longrightarrow> length (concat (map f xs)) \<le> length xs * N"
  by (induction xs) auto

lemma scrape_all_pages_run:
  assumes "1 \<le> max_pages st"
  obtains m evs where "1 \<le> m" "m \<le> max_pages st"
    "fst (scrape_all_pages w st) = concat (map (page_articles w) [1..m])"
    "trace (snd (scrape_all_pages w st)) = trace st @ evs"
    "fetched evs = map page_url [1..m]"
    "\<forall>q. 1 \<le> q \<and> q < m \<longrightarrow> page_articles w q \<noteq> []"
    "m < max_pages st \<longrightarrow> page_articles w m = []"
proof -
  from scrape_loop_run [of 1 "max_pages st" w "[]" st] assms
  obtain m evs where "1 \<le> m" "m \<le> max_pages st"
    "fst (scrape_loop w (max_pages st) 1 [] st) = concat (map (page_articles w) [1..m])"
    "trace (snd (scrape_loop w (max_pages st) 1 [] st)) = trace st @ evs"
    "fetched evs = map page_url [1..m]"
    "\<forall>q. 1 \<le> q \<and> q < m \<longrightarrow> page_articles w q \<noteq> []"
    "m < max_pages st \<longrightarrow> page_articles w m = []"
    by auto
  then show ?thesis
    using that unfolding scrape_all_pages_def by blast
qed

lemma page_url_examples:
  "page_url 1 = ''https://techcrunch.com''"
  "page_url 2 = ''https://techcrunch.com/page/2/''"
  "page_url 3 = ''https://techcrunch.com/page/3/''"
  by code_simp+

lemma str_int_404: "str_int 404 = ''404''"
  by code_simp

lemma scrape_page_one:
  "scrape_page world_two_pages 1 st =
     ([\<lparr>source = ''TechCrunch'', title = ''Hello World'',
         url = ''https://techcrunch.com/2024/01/01/foo'', author = ''Jane Doe'',
         publish_time = ''2024-01-15 10:30'', hash = get_hash ''Hello World'',
         category = None, excerpt = None, scraped_at = ''2024-01-01 00:00:00''\<rparr>,
       \<lparr>source = ''TechCrunch'', title = ''Hello World'', url = [], author = ''Unknown'',
         publish_time = ''Unknown'', hash = get_hash ''Hello World'',
         category = None, excerpt = None, scraped_at = ''2024-01-01 00:00:00''\<rparr>,
       \<lparr>source = ''TechCrunch'', title = ''Hello'', url = ''https://techcrunch.com/2024/bar'',
         author = ''Unknown'', publish_time = ''Unknown'', hash = get_hash ''Hello'',
         category = None, excerpt = None, scraped_at = ''2024-01-01 00:00:00''\<rparr>],
      st\<lparr>trace := trace st @ [Get ''https://techcrunch.com'']\<rparr>)"
  by (simp add: scrape_page_def fetch_page_def world_two_pages_def page_url_examples
      parse_card_full parse_card_no_href parse_card_bare_href)

lemma scrape_page_two:
  "scrape_page world_two_pages 2 st =
     ([], st\<lparr>trace := trace st @ [Get ''https://techcrunch.com/page/2/'']\<rparr>)"
  by (simp add: scrape_page_def fetch_page_def world_two_pages_def page_url_examples)

lemma scrape_two_pages:
  "scrape_all_pages world_two_pages scraper_five =
     ([\<lparr>source = ''TechCrunch'', title = ''Hello World'',
         url = ''https://techcrunch.com/2024/01/01/foo'', author = ''Jane Doe'',
         publish_time = ''2024-01-15 10:30'', hash = get_hash ''Hello World'',
         category = None, excerpt = None, scraped_at = ''2024-01-01 00:00:00''\<rparr>,
       \<lparr>source = ''TechCrunch'', title = ''Hello World'', url = [], author = ''Unknown'',
         publish_time = ''Unknown'', hash = get_hash ''Hello World'',
         category = None, excerpt = None, scraped_at = ''2024-01-01 00:00:00''\<rparr>,
       \<lparr>source = ''TechCrunch'', title = ''Hello'', url = ''https://techcrunch.com/2024/bar'',
         author = ''Unknown'', publish_time = ''Unknown'', hash = get_hash ''Hello'',
         category = None, excerpt = None, scraped_at = ''2024-01-01 00:00:00''\<rparr>],
      \<lparr>max_pages = 5, errors = [],
        trace = [Get ''https://techcrunch.com'', Sleep, Get ''https://techcrunch.com/page/2/'']\<rparr>)"
  unfolding scrape_all_pages_def
  apply (subst scrape_loop.simps)
  apply (simp add: scraper_five_def scrape_page_one random_delay_def)
  apply (subst scrape_loop.simps)
  apply (simp add: scrape_page_two)
  done

text \<open>
  C7. \<^const>\<open>fetch_page\<close> has a result for every answer of the network (the body of the
  source function lies in a \<^verbatim>\<open>try\<close> that catches every \<^verbatim>\<open>Exception\<close>). On a status other
  than 200 it returns \<^verbatim>\<open>None\<close> and appends \<^verbatim>\<open>Failed to fetch <url>: HTTP <status>\<close> to
  \<^verbatim>\<open>errors\<close>; when the request or the reading of the body raises, it returns \<^verbatim>\<open>None\<close> and
  appends \<^verbatim>\<open>Exception while fetching <url>: <message>\<close>; on status 200 with a body that
  parses it returns the document and leaves \<^verbatim>\<open>errors\<close> as it was.
\<close>

theorem fetch_page_outcomes:
  "(\<forall>status b. web w u = Response status b \<and> status \<noteq> 200 \<longrightarrow>
      fst (fetch_page w u st) = None
      \<and> errors (snd (fetch_page w u st))
          = errors st @ [''Failed to fetch '' @ u @ '': HTTP '' @ str_int status])
   \<and> (\<forall>msg. web w u = GetRaises msg \<or> web w u = Response 200 (BodyRaises msg) \<longrightarrow>
      fst (fetch_page w u st) = None
      \<and> errors (snd (fetch_page w u st))
          = errors st @ [''Exception while fetching '' @ u @ '': '' @ msg])
   \<and> (\<forall>html. web w u = Response 200 (Document html) \<longrightarrow>
      fst (fetch_page w u st) = Some html \<and> errors (snd (fetch_page w u st)) = errors st)"
  by (auto simp: fetch_page_def Let_def)

theorem fetch_page_outcomes_witness:
  "fetch_page world_two_pages ''https://techcrunch.com/page/3/'' scraper_five
     = (None, \<lparr>max_pages = 5,
               errors = [''Failed to fetch https://techcrunch.com/page/3/: HTTP 404''],
               trace = [Get ''https://techcrunch.com/page/3/'']\<rparr>)
   \<and> errors (snd (fetch_page world_down ''https://techcrunch.com'' scraper_five))
       = [''Exception while fetching https://techcrunch.com: Connection refused'']
   \<and> fst (fetch_page world_two_pages ''https://techcrunch.com/page/2/'' scraper_five)
       = Some (Soup [])
   \<and> errors (snd (fetch_page world_two_pages ''https://techcrunch.com/page/2/'' scraper_five))
       = []"
proof -
  have a: "web world_two_pages ''https://techcrunch.com/page/3/'' = Response 404 (BodyRaises [])"
    by (simp add: world_two_pages_def)
  have b: "web world_down ''https://techcrunch.com'' = GetRaises ''Connection refused''"
    by (simp add: world_down_def)
  have c: "web world_two_pages ''https://techcrunch.com/page/2/''
             = Response 200 (Document (Soup []))"
    by (simp add: world_two_pages_def)
  from fetch_page_outcomes [of world_two_pages "''https://techcrunch.com/page/3/''" scraper_five]
    fetch_page_outcomes [of world_down "''https://techcrunch.com''" scraper_five]
    fetch_page_outcomes [of world_two_pages "''https://techcrunch.com/page/2/''" scraper_five]
    a b c
  have "errors (snd (fetch_page world_two_pages ''https://techcrunch.com/page/3/'' scraper_five))
          = [''Failed to fetch https://techcrunch.com/page/3/: HTTP 404'']"
    and "errors (snd (fetch_page world_down ''https://techcrunch.com'' scraper_five))
       = [''Exception while fetching https://techcrunch.com: Connection refused'']"
    and "fst (fetch_page world_two_pages ''https://techcrunch.com/page/2/'' scraper_five)
       = Some (Soup [])"
    and "errors (snd (fetch_page world_two_pages ''https://techcrunch.com/page/2/'' scraper_five))
       = []"
    by (simp_all add: scraper_five_def str_int_404)
  moreover have "fetch_page world_two_pages ''https://techcrunch.com/page/3/'' scraper_five
     = (None, \<lparr>max_pages = 5,
               errors = [''Failed to fetch https://techcrunch.com/page/3/: HTTP 404''],
               trace = [Get ''https://techcrunch.com/page/3/'']\<rparr>)"
    by (simp add: fetch_page_def a scraper_five_def str_int_404)
  ultimately show ?thesis by simp
qed

text \<open>
  C1. Let page \<open>k\<close>, within the page budget, yield no article (the fetch failed, or no
  card of the page gave an Article). Then the run requests the pages \<open>1\<close> to \<open>m\<close> for some
  \<open>m \<le> k\<close> and nothing else; no page after \<open>k\<close> is requested; page \<open>m\<close> yields nothing
  and the result is what the pages up to \<open>m\<close> yielded; and \<open>m = k\<close> when every page
  before \<open>k\<close> yields an article. What page \<open>p\<close> yields, \<^const>\<open>page_articles\<close>, is the list
  \<^const>\<open>scrape_page\<close> returns for it in any state.
\<close>

theorem stops_at_first_empty_page:
  assumes "1 \<le> k" and "k \<le> max_pages st" and "fst (scrape_page w k s) = []"
  shows "\<exists>m evs. 1 \<le> m \<and> m \<le> k
           \<and> trace (snd (scrape_all_pages w st)) = trace st @ evs
           \<and> fetched evs = map page_url [1..m]
           \<and> (\<forall>j. k < j \<longrightarrow> Get (page_url j) \<notin> set evs)
           \<and> fst (scrape_all_pages w st) = concat (map (page_articles w) [1..m])
           \<and> page_articles w m = []
           \<and> ((\<forall>i. 1 \<le> i \<and> i < k \<longrightarrow> page_articles w i \<noteq> []) \<longrightarrow> m = k)
           \<and> (\<forall>p s'. fst (scrape_page w p s') = page_articles w p)"
proof -
  have e: "page_articles w k = []"
    using assms(3) by (simp add: scrape_page_fst)
  from assms(1,2) have "1 \<le> max_pages st" by simp
  then obtain m evs where r: "1 \<le> m" "m \<le> max_pages st"
    "fst (scrape_all_pages w st) = concat (map (page_articles w) [1..m])"
    "trace (snd (scrape_all_pages w st)) = trace st @ evs"
    "fetched evs = map page_url [1..m]"
    "\<forall>q. 1 \<le> q \<and> q < m \<longrightarrow> page_articles w q \<noteq> []"
    "m < max_pages st \<longrightarrow> page_articles w m = []"
    by (rule scrape_all_pages_run)
  have mk: "m \<le> k"
  proof (rule ccontr)
    assume "\<not> m \<le> k"
    with assms(1) r(6) have "page_articles w k \<noteq> []" by simp
    with e show False by simp
  qed
  have last_empty: "page_articles w m = []"
  proof (cases "m < max_pages st")
    case True
    with r(7) show ?thesis by simp
  next
    case False
    with mk assms(2) have "m = k" by simp
    with e show ?thesis by simp
  qed
  have later: "\<forall>j. k < j \<longrightarrow> Get (page_url j) \<notin> set evs"
  proof (intro allI impI notI)
    fix j assume j: "k < j" and "Get (page_url j) \<in> set evs"
    then have "page_url j \<in> set (map page_url [1..m])"
      using r(5) by (simp add: Get_fetched)
    then obtain i where i: "1 \<le> i" "i \<le> m" "page_url i = page_url j" by auto
    with j assms(1) have "i = j" using page_url_inj [of i j] by simp
    with i(2) mk j show False by simp
  qed
  have first: "(\<forall>i. 1 \<le> i \<and> i < k \<longrightarrow> page_articles w i \<noteq> []) \<longrightarrow> m = k"
  proof
    assume a: "\<forall>i. 1 \<le> i \<and> i < k \<longrightarrow> page_articles w i \<noteq> []"
    show "m = k"
    proof (rule ccontr)
      assume "m \<noteq> k"
      with mk have "m < k" by simp
      with a r(1) have "page_articles w m \<noteq> []" by simp
      with last_empty show False by simp
    qed
  qed
  have "\<forall>p s'. fst (scrape_page w p s') = page_articles w p"
    by (simp add: scrape_page_fst)
  with r(1) mk r(4) r(5) later r(3) last_empty first show ?thesis by blast
qed

theorem stops_at_first_empty_page_witness:
  "fst (scrape_page world_two_pages 2 scraper_five) = []
   \<and> length (fst (scrape_all_pages world_two_pages scraper_five)) = 3
   \<and> fetched (trace (snd (scrape_all_pages world_two_pages scraper_five)))
       = [''https://techcrunch.com'', ''https://techcrunch.com/page/2/'']
   \<and> Get ''https://techcrunch.com/page/3/''
       \<notin> set (trace (snd (scrape_all_pages world_two_pages scraper_five)))"
proof -
  have e: "fst (scrape_page world_two_pages 2 scraper_five) = []"
    by (simp add: scrape_page_two)
  have "(1::int) \<le> 2" "2 \<le> max_pages scraper_five"
    by (simp_all add: scraper_five_def)
  from stops_at_first_empty_page [OF this e]
  obtain evs where "trace (snd (scrape_all_pages world_two_pages scraper_five))
                      = trace scraper_five @ evs"
    and "\<forall>j. 2 < j \<longrightarrow> Get (page_url j) \<notin> set evs"
    by blast
  then have "Get (page_url 3) \<notin> set (trace (snd (scrape_all_pages world_two_pages scraper_five)))"
    by (simp add: scraper_five_def)
  with e show ?thesis
    by (simp add: scrape_two_pages page_url_examples)
qed

text \<open>
  C6. With a page budget of at least one and at most \<open>N\<close> cards on every page of the
  budget, the result has at most \<open>max_pages * N\<close> Articles. It is what page 1 yields,
  followed by what page 2 yields, and so on up to the last page requested; and what a
  page yields are the Articles of its cards, in the order of the cards, the dropped
  cards left out.
\<close>

theorem scrape_all_pages_order_and_length:
  assumes "1 \<le> max_pages st"
    and "\<forall>p. 1 \<le> p \<and> p \<le> max_pages st \<longrightarrow> length (page_cards w p) \<le> N"
  shows "length (fst (scrape_all_pages w st)) \<le> nat (max_pages st) * N
         \<and> (\<exists>m. 1 \<le> m \<and> m \<le> max_pages st
                \<and> fst (scrape_all_pages w st) = concat (map (page_articles w) [1..m]))
         \<and> (\<forall>p. page_articles w p
                  = List.map_filter (\<lambda>(i, c). parse_article_from_card (clock w p i) c)
                      (enumerate 0 (page_cards w p)))
         \<and> (\<forall>p s'. fst (scrape_page w p s') = page_articles w p)"
proof -
  from assms(1) obtain m and evs :: "event list" where r: "1 \<le> m" "m \<le> max_pages st"
    "fst (scrape_all_pages w st) = concat (map (page_articles w) [1..m])"
    by (rule scrape_all_pages_run)
  have "\<forall>p\<in>set [1..m]. length (page_articles w p) \<le> N"
  proof
    fix p assume "p \<in> set [1..m]"
    with r(2) assms(2) have "length (page_cards w p) \<le> N" by simp
    with page_articles_length [of w p] show "length (page_articles w p) \<le> N" by simp
  qed
  then have "length (concat (map (page_articles w) [1..m])) \<le> length [1..m] * N"
    by (rule length_concat_le)
  also have "length [1..m] = nat m" by simp
  also have "nat m * N \<le> nat (max_pages st) * N"
    using r(2) by (intro mult_le_mono1 nat_mono)
  finally have len: "length (fst (scrape_all_pages w st)) \<le> nat (max_pages st) * N"
    using r(3) by simp
  have "\<forall>p. page_articles w p
                  = List.map_filter (\<lambda>(i, c). parse_article_from_card (clock w p i) c)
                      (enumerate 0 (page_cards w p))"
    by (simp add: page_articles_def parse_cards_map_filter)
  moreover have "\<forall>p s'. fst (scrape_page w p s') = page_articles w p"
    by (simp add: scrape_page_fst)
  ultimately show ?thesis using len r by blast
qed

theorem scrape_all_pages_order_and_length_witness:
  "length (fst (scrape_all_pages world_two_pages scraper_five)) \<le> 15
   \<and> map title (fst (scrape_all_pages world_two_pages scraper_five))
       = [''Hello World'', ''Hello World'', ''Hello'']
   \<and> map url (fst (scrape_all_pages world_two_pages scraper_five))
       = [''https://techcrunch.com/2024/01/01/foo'', [], ''https://techcrunch.com/2024/bar'']"
proof -
  have a: "1 \<le> max_pages scraper_five"
    by (simp add: scraper_five_def)
  have b: "\<forall>p. 1 \<le> p \<and> p \<le> max_pages scraper_five
             \<longrightarrow> length (page_cards world_two_pages p) \<le> 3"
    by (simp add: page_cards_def fetch_result_def world_two_pages_def)
  from scrape_all_pages_order_and_length [OF a b]
  have "length (fst (scrape_all_pages world_two_pages scraper_five)) \<le> nat 5 * 3"
    by (simp add: scraper_five_def)
  then show ?thesis
    by (simp add: scrape_two_pages)
qed

text \<open>
  C9. With \<open>max_pages \<le> 0\<close> the run returns no Article and leaves the state as it was:
  nothing is requested, nothing is logged.
\<close>

theorem no_pages_no_fetch:
  assumes "max_pages st \<le> 0"
  shows "scrape_all_pages w st = ([], st)"
  unfolding scrape_all_pages_def using assms by (subst scrape_loop.simps) simp

theorem no_pages_no_fetch_witness:
  "scrape_all_pages world_two_pages \<lparr>max_pages = 0, errors = [], trace = []\<rparr>
     = ([], \<lparr>max_pages = 0, errors = [], trace = []\<rparr>)
   \<and> scrape_all_pages world_down \<lparr>max_pages = - 3, errors = [], trace = []\<rparr>
     = ([], \<lparr>max_pages = - 3, errors = [], trace = []\<rparr>)"
  using no_pages_no_fetch [of "\<lparr>max_pages = 0, errors = [], trace = []\<rparr>" world_two_pages]
    no_pages_no_fetch [of "\<lparr>max_pages = - 3, errors = [], trace = []\<rparr>" world_down]
  by simp

end
